theory Spec2Isabelle
  imports Main "HOL-Library.Sublist"
begin

section \<open>YSO: the YumStudio object format (ysocxx.hpp)\<close>

text \<open>
  A shallow embedding of the header \<^verbatim>\<open>src/ysocxx/ysocxx.hpp\<close>: the two container
  classes \<^verbatim>\<open>YSOSection\<close> and \<^verbatim>\<open>YumStudioObject\<close>, the serializer
  (\<^verbatim>\<open>pack\<close>, \<^verbatim>\<open>to_string\<close>, \<^verbatim>\<open>save\<close>) and the parser
  (\<^verbatim>\<open>trim\<close>, \<^verbatim>\<open>parse_section\<close>, \<^verbatim>\<open>parse\<close>).
  A \<^verbatim>\<open>std::string\<close> is a \<^typ>\<open>string\<close> (a list of 8-bit characters), a
  \<^verbatim>\<open>std::unordered_map\<close> is a map, a C++ exception is the left summand of a result.
\<close>

subsection \<open>Exceptions and undefined behaviour\<close>

text \<open>
  The header throws \<^verbatim>\<open>std::out_of_range\<close> (a missing key; the library throws the same
  class from \<^verbatim>\<open>at\<close> and \<^verbatim>\<open>substr\<close>) and \<^verbatim>\<open>std::runtime_error\<close> (malformed
  input, a file that cannot be opened). Each carries its message.

  The third outcome is not an exception. It stands for a call whose behaviour C++ leaves
  undefined: here, a function with a result type whose body ends without a
  \<^verbatim>\<open>return\<close> statement. No value reaches the caller of such a call and nothing is
  promised about what happens instead.
\<close>

datatype error = out_of_range string | runtime_error string | undefined_behaviour

subsection \<open>The pieces of the standard library the header uses\<close>

text \<open>
  \<^verbatim>\<open>size_t\<close> is taken to be 64 bits wide. \<^verbatim>\<open>std::string::npos\<close> is its largest
  value, and the sum \<^verbatim>\<open>nameend + 1\<close> wraps around as unsigned arithmetic does.
\<close>

definition npos :: nat where
  "npos = 2 ^ 64 - 1"

definition size_t_add :: "nat \<Rightarrow> nat \<Rightarrow> nat" where
  "size_t_add a b = (a + b) mod 2 ^ 64"

definition size_t_sub :: "nat \<Rightarrow> nat \<Rightarrow> nat" where
  "size_t_sub a b = (2 ^ 64 + a - b mod 2 ^ 64) mod 2 ^ 64"

text \<open>\<^verbatim>\<open>#define YSO_MULLN_STR "\"\"\""\<close>: three double quotes.\<close>

definition YSO_MULLN_STR :: string where
  "YSO_MULLN_STR = [CHR 0x22, CHR 0x22, CHR 0x22]"

text \<open>
  \<^verbatim>\<open>std::isspace\<close> in the default "C" locale: space, form feed, line feed, carriage
  return, horizontal and vertical tab, and no other byte.
\<close>

definition isspace :: "char \<Rightarrow> bool" where
  "isspace c = (c = CHR 0x20 \<or> c = CHR 0x09 \<or> c = CHR 0x0A \<or> c = CHR 0x0B
     \<or> c = CHR 0x0C \<or> c = CHR 0x0D)"

text \<open>
  \<^verbatim>\<open>s[pos]\<close> on a \<^verbatim>\<open>std::string\<close>: the character at \<open>pos\<close>, and the null
  character at \<open>pos = size()\<close> (the header only reads \<^verbatim>\<open>line[0]\<close>, so \<open>pos\<close> never
  exceeds the size).
\<close>

definition string_index :: "string \<Rightarrow> nat \<Rightarrow> char" where
  "string_index s pos = (if pos < length s then s ! pos else CHR 0x00)"

text \<open>
  \<^verbatim>\<open>s.find(c, pos)\<close>: the index of the first \<open>c\<close> at or after \<open>pos\<close>, or
  \<^verbatim>\<open>npos\<close>. \<^verbatim>\<open>s.find(str)\<close>: the index at which the first occurrence of \<open>str\<close>
  starts, or \<^verbatim>\<open>npos\<close>.
\<close>

fun find_chr_at :: "char \<Rightarrow> string \<Rightarrow> nat \<Rightarrow> nat" where
  "find_chr_at c [] i = npos"
| "find_chr_at c (x # xs) i = (if x = c then i else find_chr_at c xs (Suc i))"

definition find_chr :: "string \<Rightarrow> char \<Rightarrow> nat \<Rightarrow> nat" where
  "find_chr s c pos = find_chr_at c (drop pos s) pos"

fun find_str_at :: "string \<Rightarrow> string \<Rightarrow> nat \<Rightarrow> nat" where
  "find_str_at pat [] i = (if pat = [] then i else npos)"
| "find_str_at pat (x # xs) i =
     (if prefix pat (x # xs) then i else find_str_at pat xs (Suc i))"

definition find_str :: "string \<Rightarrow> string \<Rightarrow> nat" where
  "find_str s pat = find_str_at pat s 0"

text \<open>
  \<^verbatim>\<open>s.substr(pos, n)\<close>: throws \<^verbatim>\<open>std::out_of_range\<close> when \<open>pos > size()\<close>,
  otherwise the \<open>min n (size() - pos)\<close> characters from \<open>pos\<close> on. The one-argument call
  \<^verbatim>\<open>s.substr(pos)\<close> has \<open>n = npos\<close>.
\<close>

definition substr :: "string \<Rightarrow> nat \<Rightarrow> nat \<Rightarrow> error + string" where
  "substr s pos n =
     (if length s < pos then Inl (out_of_range ''basic_string::substr'')
      else Inr (take n (drop pos s)))"

lemma find_chr_at_eq:
  "find_chr_at c xs i =
     (if c \<in> set xs then i + length (takeWhile (\<lambda>x. x \<noteq> c) xs) else npos)"
  by (induction xs arbitrary: i) auto

lemma find_chr_0:
  "find_chr s c 0 = (if c \<in> set s then length (takeWhile (\<lambda>x. x \<noteq> c) s) else npos)"
  by (simp add: find_chr_def find_chr_at_eq)

lemma size_t_add_npos: "size_t_add npos (Suc 0) = 0"
  by (simp add: size_t_add_def npos_def)

lemma size_t_add_le: "size_t_add a b \<le> a + b"
  by (simp add: size_t_add_def)

lemma substr_0: "substr s 0 n = Inr (take n s)"
  by (simp add: substr_def)

lemma takeWhile_length_less:
  "c \<in> set s \<Longrightarrow> length (takeWhile (\<lambda>x. x \<noteq> c) s) < length s"
  by (induction s) auto

text \<open>
  \<^verbatim>\<open>line.substr(line.find(c) + 1)\<close> never throws: the position is at most the size
  when \<open>c\<close> occurs, and \<^verbatim>\<open>npos + 1\<close> is \<open>0\<close> when it does not.
\<close>

lemma substr_after_find:
  "substr s (size_t_add (find_chr s c 0) 1) npos =
     Inr (take npos (drop (size_t_add (find_chr s c 0) 1) s))"
proof (cases "c \<in> set s")
  case True
  then have "length (takeWhile (\<lambda>x. x \<noteq> c) s) < length s"
    by (rule takeWhile_length_less)
  moreover have "size_t_add (length (takeWhile (\<lambda>x. x \<noteq> c) s)) 1
      \<le> length (takeWhile (\<lambda>x. x \<noteq> c) s) + 1"
    by (rule size_t_add_le)
  ultimately show ?thesis
    using True by (simp add: substr_def find_chr_0)
next
  case False
  then show ?thesis
    by (simp add: substr_def find_chr_0 size_t_add_npos)
qed

text \<open>A search for something that does not occur gives \<^verbatim>\<open>npos\<close>.\<close>

lemma find_str_at_absent: "\<not> sublist pat s \<Longrightarrow> find_str_at pat s i = npos"
proof (induction s arbitrary: i)
  case Nil
  then show ?case by auto
next
  case (Cons x xs)
  from Cons.prems have "\<not> prefix pat (x # xs)"
    using prefix_imp_sublist by blast
  moreover from Cons.prems have "\<not> sublist pat xs"
    by (auto simp: sublist_Cons_right)
  ultimately show ?case using Cons.IH by simp
qed

lemma find_chr_absent: "c \<notin> set (drop pos s) \<Longrightarrow> find_chr s c pos = npos"
  by (simp add: find_chr_def find_chr_at_eq)

subsection \<open>Input streams\<close>

text \<open>
  A \<^verbatim>\<open>std::istream\<close> over an in-memory character sequence: the characters not yet
  read and the two state bits the header depends on. The stream converts to
  \<^verbatim>\<open>true\<close> when \<open>failbit\<close> is clear, and \<^verbatim>\<open>eof()\<close> reads \<open>eofbit\<close>.
\<close>

record istream =
  buf :: string
  eofbit :: bool
  failbit :: bool

definition istringstream :: "string \<Rightarrow> istream" where
  "istringstream s = \<lparr>buf = s, eofbit = False, failbit = False\<rparr>"

text \<open>
  \<^verbatim>\<open>std::getline(src, line)\<close>. The sentry fails on a stream that is not good and sets
  \<open>failbit\<close>, leaving \<open>line\<close> as it was. Otherwise the line is erased and characters are
  extracted up to and including the next line feed, which is not stored. When the
  characters run out first, \<open>eofbit\<close> is set, and \<open>failbit\<close> too if nothing was
  extracted.
\<close>

definition getline :: "istream \<Rightarrow> string \<Rightarrow> istream \<times> string" where
  "getline src line =
     (if eofbit src \<or> failbit src then (src\<lparr>failbit := True\<rparr>, line)
      else if CHR 0x0A \<in> set (buf src)
      then (src\<lparr>buf := tl (dropWhile (\<lambda>c. c \<noteq> CHR 0x0A) (buf src))\<rparr>,
            takeWhile (\<lambda>c. c \<noteq> CHR 0x0A) (buf src))
      else (src\<lparr>buf := [], eofbit := True, failbit := (buf src = [])\<rparr>, buf src))"

subsection \<open>class YSOSection\<close>

text \<open>
  The class has one member, \<^verbatim>\<open>std::unordered_map<std::string, std::string> map\<close>.
\<close>

type_synonym YSOSection = "string \<rightharpoonup> string"

text \<open>\<^verbatim>\<open>YSOSection::pack\<close> (private and static; no function of the header calls it).\<close>

definition pack :: "string \<Rightarrow> string" where
  "pack str =
     (if find_chr str (CHR 0x0A) 0 \<noteq> npos then YSO_MULLN_STR @ str @ YSO_MULLN_STR
      else str)"

text \<open>\<^verbatim>\<open>YSOSection::contains\<close>.\<close>

definition YSOSection_contains :: "YSOSection \<Rightarrow> string \<Rightarrow> bool" where
  "YSOSection_contains m key = (m key \<noteq> None)"

text \<open>\<^verbatim>\<open>unordered_map::at\<close>: the mapped value, or \<^verbatim>\<open>std::out_of_range\<close>.\<close>

definition unordered_map_at :: "('k \<rightharpoonup> 'v) \<Rightarrow> 'k \<Rightarrow> error + 'v" where
  "unordered_map_at m key =
     (case m key of None \<Rightarrow> Inl (out_of_range ''unordered_map::at'') | Some v \<Rightarrow> Inr v)"

text \<open>
  \<^verbatim>\<open>std::string operator[](const std::string &key) const\<close>: the immutable lookup.
\<close>

definition YSOSection_index_const :: "YSOSection \<Rightarrow> string \<Rightarrow> error + string" where
  "YSOSection_index_const m key =
     (if YSOSection_contains m key then unordered_map_at m key
      else Inl (out_of_range
        (''YumStudioObject: key not found '' @ [CHR 0x27] @ key @ [CHR 0x27])))"

text \<open>
  \<^verbatim>\<open>section[name] = v\<close> through the mutable \<^verbatim>\<open>operator[]\<close>: the entry is created if
  it is missing and then assigned.
\<close>

definition YSOSection_assign :: "YSOSection \<Rightarrow> string \<Rightarrow> string \<Rightarrow> YSOSection" where
  "YSOSection_assign m key v = m(key \<mapsto> v)"

text \<open>
  The loop of \<^verbatim>\<open>YSOSection::to_string\<close>,
  \<^verbatim>\<open>for (const auto &[k, v]:map) s += k + ":" + v + "\n";\<close>.
  It runs over the entries in the order the hash table yields them, which the library
  leaves open: the model takes that sequence of entries as its argument. The result is
  the local variable \<open>s\<close> when the loop ends.
\<close>

definition to_string_s :: "(string \<times> string) list \<Rightarrow> string" where
  "to_string_s entries = foldl (\<lambda>s (k, v). s @ (k @ '':'' @ v @ [CHR 0x0A])) [] entries"

text \<open>
  \<^verbatim>\<open>YSOSection::to_string\<close>. After the loop the body of the source function ends:
  there is no \<^verbatim>\<open>return\<close> statement, although the result type is
  \<^verbatim>\<open>std::string\<close>. So the \<open>s\<close> that the loop has built never reaches the caller;
  every call, whatever the entries are, has undefined behaviour.
\<close>

definition to_string :: "(string \<times> string) list \<Rightarrow> error + string" where
  "to_string entries = (let s = to_string_s entries in Inl undefined_behaviour)"

subsection \<open>class YumStudioObject\<close>

text \<open>
  The class has one member,
  \<^verbatim>\<open>std::unordered_map<std::string, YSOSection> sections\<close>.
\<close>

type_synonym YumStudioObject = "string \<rightharpoonup> YSOSection"

text \<open>
  \<^verbatim>\<open>YumStudioObject::trim\<close>: \<open>wsfront\<close> is the position of the first character that is
  not a space, \<open>wsback\<close> the position after the last one; both are the end of the string
  when every character is a space.
\<close>

definition trim :: "string \<Rightarrow> string" where
  "trim s =
     (let wsfront = length (takeWhile isspace s);
          wsback = length s - length (takeWhile isspace (rev s))
      in if wsback \<le> wsfront then [] else take (wsback - wsfront) (drop wsfront s))"

text \<open>\<^verbatim>\<open>YumStudioObject::contains\<close>.\<close>

definition YumStudioObject_contains :: "YumStudioObject \<Rightarrow> string \<Rightarrow> bool" where
  "YumStudioObject_contains sections section = (sections section \<noteq> None)"

text \<open>
  \<^verbatim>\<open>YSOSection operator[](const std::string &section) const\<close>: the immutable lookup.
\<close>

definition YumStudioObject_index_const :: "YumStudioObject \<Rightarrow> string \<Rightarrow> error + YSOSection" where
  "YumStudioObject_index_const sections section =
     (if YumStudioObject_contains sections section then unordered_map_at sections section
      else Inl (out_of_range
        (''YumStudioObject: key not found '' @ [CHR 0x27] @ section @ [CHR 0x27])))"

definition YumStudioObject_assign ::
  "YumStudioObject \<Rightarrow> string \<Rightarrow> YSOSection \<Rightarrow> YumStudioObject" where
  "YumStudioObject_assign sections section v = sections(section \<mapsto> v)"

text \<open>
  The loop of \<^verbatim>\<open>YumStudioObject::save\<close>, which for each section writes
  \<^verbatim>\<open>"[" << section.first << "]\n" << section.second.to_string() << std::endl\<close>.
  The sections come in the order the hash table yields them, each with its entries in
  the order its own table yields them; \<open>file\<close> is the text written so far. The loop
  needs the value of \<^verbatim>\<open>to_string\<close> for each section, so it gets past a section only
  if that call returns one.
\<close>

fun save_sections ::
  "string \<Rightarrow> (string \<times> (string \<times> string) list) list \<Rightarrow> error + string" where
  "save_sections file [] = Inr file"
| "save_sections file ((name, entries) # sections) =
     (case to_string entries of
        Inl e \<Rightarrow> Inl e
      | Inr s \<Rightarrow>
          save_sections (file @ ''['' @ name @ '']'' @ [CHR 0x0A] @ s @ [CHR 0x0A]) sections)"

text \<open>
  \<^verbatim>\<open>YumStudioObject::save\<close>. The file system is outside the program: \<open>opened\<close> says
  whether the output file could be opened, and the result is the text written to it when
  the function completes.
\<close>

definition save ::
  "bool \<Rightarrow> (string \<times> (string \<times> string) list) list \<Rightarrow> string \<Rightarrow> string \<Rightarrow> error + string" where
  "save opened sections path header =
     (if \<not> opened then Inl (runtime_error (''File not found: '' @ path))
      else save_sections (header @ [CHR 0x0A]) sections)"

text \<open>
  So \<^verbatim>\<open>save\<close> completes for an object without sections, throws when the file cannot
  be opened, and has undefined behaviour as soon as there is a section to write.
\<close>

lemma save_without_sections: "save True [] path header = Inr (header @ [CHR 0x0A])"
  by (simp add: save_def)

lemma save_not_opened:
  "save False sections path header = Inl (runtime_error (''File not found: '' @ path))"
  by (simp add: save_def)

lemma save_with_a_section:
  "save True ((name, entries) # sections) path header = Inl undefined_behaviour"
  by (simp add: save_def to_string_def)

text \<open>
  The object whose hash tables yield a given sequence of sections and entries.
\<close>

definition object_of :: "(string \<times> (string \<times> string) list) list \<Rightarrow> YumStudioObject" where
  "object_of sections = map_of (map (\<lambda>(name, entries). (name, map_of entries)) sections)"

subsection \<open>The parser\<close>

text \<open>
  The inner loop of \<^verbatim>\<open>parse_section\<close>, which collects a multi-line value:
  \<^verbatim>\<open>while (std::getline(src, line) && (!found)) { ... }\<close>.
  The condition reads a line before it tests \<open>found\<close>. The loop changes \<open>src\<close>,
  \<open>line\<close>, \<open>value\<close> and \<open>found\<close>; the model returns all four, or the exception.
\<close>

function multiline_loop ::
  "istream \<Rightarrow> string \<Rightarrow> string \<Rightarrow> bool \<Rightarrow> error + (istream \<times> string \<times> string \<times> bool)" where
  "multiline_loop src line value found =
     (case getline src line of (src1, line1) \<Rightarrow>
        if failbit src1 \<or> found then Inr (src1, line1, value, found)
        else if eofbit src1 \<and> \<not> found
        then Inl (runtime_error (''expected '' @ [CHR 0x27] @ YSO_MULLN_STR @ [CHR 0x27]))
        else if find_str line1 YSO_MULLN_STR \<noteq> npos
        then (let end' = find_str line1 YSO_MULLN_STR in
              case substr line1 0 end' of
                Inl e \<Rightarrow> Inl e
              | Inr pre \<Rightarrow> multiline_loop src1 line1 (value @ pre) True)
        else multiline_loop src1 line1 (value @ line1) found)"
  by pat_completeness auto

lemma getline_shorter:
  "getline src line = (src1, line1) \<Longrightarrow> \<not> failbit src1 \<Longrightarrow> length (buf src1) < length (buf src)"
proof -
  assume g: "getline src line = (src1, line1)" and ok: "\<not> failbit src1"
  show ?thesis
  proof (cases "CHR 0x0A \<in> set (buf src)")
    case True
    then have ne: "dropWhile (\<lambda>c. c \<noteq> CHR 0x0A) (buf src) \<noteq> []"
      by simp
    have "length (dropWhile (\<lambda>c. c \<noteq> CHR 0x0A) (buf src)) \<le> length (buf src)"
      by (rule length_dropWhile_le)
    with ne have "length (tl (dropWhile (\<lambda>c. c \<noteq> CHR 0x0A) (buf src))) < length (buf src)"
      by (cases "dropWhile (\<lambda>c. c \<noteq> CHR 0x0A) (buf src)") auto
    with g ok True show ?thesis
      by (auto simp: getline_def split: if_splits)
  next
    case False
    with g ok show ?thesis
      by (auto simp: getline_def split: if_splits)
  qed
qed

lemma getline_buf_le:
  "getline src line = (src1, line1) \<Longrightarrow> length (buf src1) \<le> length (buf src)"
proof -
  assume g: "getline src line = (src1, line1)"
  have "length (tl (dropWhile (\<lambda>c. c \<noteq> CHR 0x0A) (buf src))) \<le> length (buf src)"
    using length_dropWhile_le [of "\<lambda>c. c \<noteq> CHR 0x0A" "buf src"] by simp
  with g show ?thesis
    by (auto simp: getline_def split: if_splits)
qed

termination multiline_loop
  by (relation "measure (\<lambda>(src, line, value, found). length (buf src))")
     (auto dest: getline_shorter [OF sym])

declare multiline_loop.simps [simp del]

text \<open>
  The test of \<^verbatim>\<open>parse_section\<close> on a trimmed line, written as the source writes it
  (\<^verbatim>\<open>&&\<close> binds tighter than \<^verbatim>\<open>||\<close>, as \<open>\<and>\<close> binds tighter than \<open>\<or>\<close>):
  \<^verbatim>\<open>line.size() >= 0 && line[0] != '#' || line[0] != ';' && line.find(':') != npos\<close>.
\<close>

definition parse_section_condition :: "string \<Rightarrow> bool" where
  "parse_section_condition line =
     (0 \<le> length line \<and> string_index line 0 \<noteq> CHR ''#''
      \<or> string_index line 0 \<noteq> CHR '';'' \<and> find_chr line (CHR '':'') 0 \<noteq> npos)"

text \<open>
  The expression the specification gives for the test of \<^verbatim>\<open>parse_section\<close>:
  \<^verbatim>\<open>(first_char != '#' && first_char != ';') || has_colon\<close>.
\<close>

definition spec_key_value_condition :: "string \<Rightarrow> bool" where
  "spec_key_value_condition line =
     ((string_index line 0 \<noteq> CHR ''#'' \<and> string_index line 0 \<noteq> CHR '';'')
      \<or> find_chr line (CHR '':'') 0 \<noteq> npos)"

text \<open>The inner loop never leaves more characters to read than it found.\<close>

lemma multiline_loop_buf_le:
  "multiline_loop src line v found = Inr (src2, line2, v2, found2)
     \<Longrightarrow> length (buf src2) \<le> length (buf src)"
proof (induction src line v found rule: multiline_loop.induct)
  case (1 src line v found)
  obtain src1 line1 where g: "getline src line = (src1, line1)"
    by (cases "getline src line")
  have le: "length (buf src1) \<le> length (buf src)"
    using g by (rule getline_buf_le)
  show ?case
  proof (cases "failbit src1 \<or> found")
    case True
    with "1.prems" g le show ?thesis
      by (simp add: multiline_loop.simps [of src])
  next
    case False
    with "1.prems" g have rest:
      "\<not> (eofbit src1 \<and> \<not> found)"
      by (auto simp: multiline_loop.simps [of src] split: if_splits)
    show ?thesis
    proof (cases "find_str line1 YSO_MULLN_STR \<noteq> npos")
      case True
      with "1.prems" g False rest obtain pre where
        pre: "substr line1 0 (find_str line1 YSO_MULLN_STR) = Inr pre"
        and rec: "multiline_loop src1 line1 (v @ pre) True = Inr (src2, line2, v2, found2)"
        by (auto simp: multiline_loop.simps [of src] Let_def split: if_splits sum.splits)
      from "1.IH"(1) [OF g [symmetric] False rest True refl pre rec] le
      show ?thesis by simp
    next
      case nf: False
      with "1.prems" g False rest have
        rec: "multiline_loop src1 line1 (v @ line1) found = Inr (src2, line2, v2, found2)"
        by (auto simp: multiline_loop.simps [of src] split: if_splits)
      from "1.IH"(2) [OF g [symmetric] False rest nf rec] le
      show ?thesis by simp
    qed
  qed
qed

text \<open>
  The loop of \<^verbatim>\<open>parse_section\<close>:
  \<^verbatim>\<open>while (std::getline(src, line)) { line = trim(line); ... }\<close>.
  Only the branch for a value without the marker assigns to the section. The result is
  the section and the stream as the loop leaves it.
\<close>

function parse_section_loop ::
  "istream \<Rightarrow> string \<Rightarrow> YSOSection \<Rightarrow> error + (YSOSection \<times> istream)" where
  "parse_section_loop src line section =
     (case getline src line of (src1, line0) \<Rightarrow>
        if failbit src1 then Inr (section, src1)
        else
          let line1 = trim line0 in
          if parse_section_condition line1
          then (let nameend = find_chr line1 (CHR '':'') 0 in
                case substr line1 0 nameend of
                  Inl e \<Rightarrow> Inl e
                | Inr name \<Rightarrow>
                   (case substr line1 (size_t_add nameend 1) npos of
                      Inl e \<Rightarrow> Inl e
                    | Inr value \<Rightarrow>
                       if find_str value YSO_MULLN_STR \<noteq> npos
                       then (case multiline_loop src1 line1 value False of
                               Inl e \<Rightarrow> Inl e
                             | Inr (src2, line2, value2, found2) \<Rightarrow>
                                 parse_section_loop src2 line2 section)
                       else parse_section_loop src1 line1
                              (YSOSection_assign section name (trim value))))
          else parse_section_loop src1 line1 section)"
  by pat_completeness auto

termination parse_section_loop
  apply (relation "measure (\<lambda>(src, line, section). length (buf src))")
     apply simp
    apply (auto dest!: getline_shorter [OF sym] multiline_loop_buf_le)
  done

declare parse_section_loop.simps [simp del]

text \<open>\<^verbatim>\<open>YumStudioObject::parse_section\<close>: the loop from an empty section.\<close>

definition parse_section :: "istream \<Rightarrow> error + (YSOSection \<times> istream)" where
  "parse_section src = parse_section_loop src [] Map.empty"

text \<open>One turn of each loop, with the library calls that cannot throw resolved.\<close>

lemma multiline_loop_step:
  assumes "getline src line = (src1, line1)"
  shows "multiline_loop src line v found =
     (if failbit src1 \<or> found then Inr (src1, line1, v, found)
      else if eofbit src1
      then Inl (runtime_error (''expected '' @ [CHR 0x27] @ YSO_MULLN_STR @ [CHR 0x27]))
      else if find_str line1 YSO_MULLN_STR \<noteq> npos
      then multiline_loop src1 line1 (v @ take (find_str line1 YSO_MULLN_STR) line1) True
      else multiline_loop src1 line1 (v @ line1) found)"
  using assms by (simp add: multiline_loop.simps [of src] substr_0 Let_def)

lemma parse_section_loop_step:
  assumes "getline src line = (src1, line0)"
  shows "parse_section_loop src line sec =
     (if failbit src1 then Inr (sec, src1)
      else if parse_section_condition (trim line0)
      then
        if find_str (take npos (drop (size_t_add (find_chr (trim line0) (CHR '':'') 0) 1) (trim line0)))
             YSO_MULLN_STR \<noteq> npos
        then (case multiline_loop src1 (trim line0)
                (take npos (drop (size_t_add (find_chr (trim line0) (CHR '':'') 0) 1) (trim line0)))
                False of
                Inl e \<Rightarrow> Inl e
              | Inr (src2, line2, value2, found2) \<Rightarrow> parse_section_loop src2 line2 sec)
        else parse_section_loop src1 (trim line0)
               (YSOSection_assign sec
                  (take (find_chr (trim line0) (CHR '':'') 0) (trim line0))
                  (trim (take npos
                     (drop (size_t_add (find_chr (trim line0) (CHR '':'') 0) 1) (trim line0)))))
      else parse_section_loop src1 (trim line0) sec)"
  using assms substr_after_find [of "trim line0" "CHR '':''"]
  by (simp add: parse_section_loop.simps [of src] substr_0 Let_def)

text \<open>The ways in which a turn of the loop of \<^verbatim>\<open>parse_section\<close> leads to a result.\<close>

lemma parse_section_loop_returns:
  assumes r: "parse_section_loop src line sec = Inr r"
    and g: "getline src line = (src1, line0)"
  obtains
    (stop) "failbit src1" "r = (sec, src1)"
  | (multi) v0 src2 line2 v2 found2 where "\<not> failbit src1"
      "multiline_loop src1 (trim line0) v0 False = Inr (src2, line2, v2, found2)"
      "parse_section_loop src2 line2 sec = Inr r"
  | (single) sec1 where "\<not> failbit src1"
      "parse_section_loop src1 (trim line0) sec1 = Inr r"
  using r unfolding parse_section_loop_step [OF g]
  by (auto split: if_splits sum.splits prod.splits)

text \<open>Whatever \<^verbatim>\<open>parse_section\<close> returns, it has read the stream until a read failed.\<close>

lemma parse_section_loop_failbit:
  "parse_section_loop src line sec = Inr (sec', src') \<Longrightarrow> failbit src'"
proof (induction "length (buf src)" arbitrary: src line sec rule: less_induct)
  case less
  obtain src1 line0 where g: "getline src line = (src1, line0)"
    by (cases "getline src line")
  from less.prems g show ?case
  proof (cases rule: parse_section_loop_returns)
    case stop
    then show ?thesis by simp
  next
    case (multi v0 src2 line2 v2 found2)
    have "length (buf src2) < length (buf src)"
      using multiline_loop_buf_le [OF multi(2)] getline_shorter [OF g multi(1)] by simp
    then show ?thesis using multi(3) by (rule less.hyps)
  next
    case (single sec1)
    have "length (buf src1) < length (buf src)"
      using getline_shorter [OF g single(1)] .
    then show ?thesis using single(2) by (rule less.hyps)
  qed
qed

lemma parse_section_loop_buf_le:
  "parse_section_loop src line sec = Inr (sec', src')
     \<Longrightarrow> length (buf src') \<le> length (buf src)"
proof (induction "length (buf src)" arbitrary: src line sec rule: less_induct)
  case less
  obtain src1 line0 where g: "getline src line = (src1, line0)"
    by (cases "getline src line")
  from less.prems g show ?case
  proof (cases rule: parse_section_loop_returns)
    case stop
    then show ?thesis using getline_buf_le [OF g] by simp
  next
    case (multi v0 src2 line2 v2 found2)
    have lt: "length (buf src2) < length (buf src)"
      using multiline_loop_buf_le [OF multi(2)] getline_shorter [OF g multi(1)] by simp
    from less.hyps [OF lt multi(3)] lt show ?thesis by simp
  next
    case (single sec1)
    have lt: "length (buf src1) < length (buf src)"
      using getline_shorter [OF g single(1)] .
    from less.hyps [OF lt single(2)] lt show ?thesis by simp
  qed
qed

text \<open>
  The test of \<^verbatim>\<open>parse\<close> on a trimmed line:
  \<^verbatim>\<open>line.size() > 0 && line[0] != '#' && line[0] != ';' && line.find('[') != npos\<close>.
\<close>

definition parse_condition :: "string \<Rightarrow> bool" where
  "parse_condition line =
     (0 < length line \<and> string_index line 0 \<noteq> CHR ''#'' \<and> string_index line 0 \<noteq> CHR '';''
      \<and> find_chr line (CHR ''['') 0 \<noteq> npos)"

text \<open>
  The loop of \<^verbatim>\<open>parse\<close>:
  \<^verbatim>\<open>while (std::getline(src, line)) { line = trim(line); ... }\<close>.
  \<^verbatim>\<open>parse_section\<close> works on the same stream, so the loop goes on with the stream as
  \<^verbatim>\<open>parse_section\<close> left it.
\<close>

function parse_loop ::
  "istream \<Rightarrow> string \<Rightarrow> YumStudioObject \<Rightarrow> error + (YumStudioObject \<times> istream)" where
  "parse_loop src line object =
     (case getline src line of (src1, line0) \<Rightarrow>
        if failbit src1 then Inr (object, src1)
        else
          let line1 = trim line0 in
          if parse_condition line1
          then (let beg = find_chr line1 (CHR ''['') 0;
                    end' = find_chr line1 (CHR '']'') beg in
                if end' = npos
                then Inl (runtime_error
                       (''YumStudioObject: Expected '' @ [CHR 0x27] @ '']'' @ [CHR 0x27]))
                else
                  case substr line1 (size_t_add beg 1) (size_t_sub end' (size_t_add beg 1)) of
                    Inl e \<Rightarrow> Inl e
                  | Inr between \<Rightarrow>
                     (let sectionname = trim between in
                      case parse_section src1 of
                        Inl e \<Rightarrow> Inl e
                      | Inr (section, src2) \<Rightarrow>
                          parse_loop src2 line1
                            (YumStudioObject_assign object sectionname section)))
          else parse_loop src1 line1 object)"
  by pat_completeness auto

termination parse_loop
  apply (relation "measure (\<lambda>(src, line, object). length (buf src))")
    apply simp
   apply (auto simp: parse_section_def dest!: getline_shorter [OF sym] parse_section_loop_buf_le)
  done

declare parse_loop.simps [simp del]

text \<open>
  \<^verbatim>\<open>YumStudioObject::parse\<close>: the loop from an empty object; the caller gets the
  object, or the exception.
\<close>

definition parse :: "istream \<Rightarrow> error + YumStudioObject" where
  "parse src =
     (case parse_loop src [] Map.empty of
        Inl e \<Rightarrow> Inl e
      | Inr (object, src') \<Rightarrow> Inr object)"

text \<open>
  The states of a stream over a character sequence that reading can bring about: the
  stream fails only at the end of the characters, and at the end nothing is left to read.
\<close>

definition istream_wf :: "istream \<Rightarrow> bool" where
  "istream_wf src = ((failbit src \<longrightarrow> eofbit src) \<and> (eofbit src \<longrightarrow> buf src = []))"

lemma getline_wf: "getline src line = (src1, line1) \<Longrightarrow> istream_wf src \<Longrightarrow> istream_wf src1"
  by (auto simp: getline_def istream_wf_def split: if_splits)

lemma multiline_loop_wf:
  "multiline_loop src line v found = Inr (src2, line2, v2, found2) \<Longrightarrow> istream_wf src
     \<Longrightarrow> istream_wf src2"
proof (induction "length (buf src)" arbitrary: src line v found rule: less_induct)
  case less
  obtain src1 line1 where g: "getline src line = (src1, line1)"
    by (cases "getline src line")
  have wf1: "istream_wf src1"
    using g less.prems(2) by (rule getline_wf)
  show ?case
  proof (cases "failbit src1 \<or> found")
    case True
    with less.prems(1) wf1 show ?thesis
      unfolding multiline_loop_step [OF g] by simp
  next
    case False
    then have lt: "length (buf src1) < length (buf src)"
      using getline_shorter [OF g] by simp
    from less.prems(1) False obtain v1 found1 where
      "multiline_loop src1 line1 v1 found1 = Inr (src2, line2, v2, found2)"
      unfolding multiline_loop_step [OF g] by (auto split: if_splits)
    from less.hyps [OF lt this wf1] show ?thesis .
  qed
qed

lemma parse_section_loop_wf:
  "parse_section_loop src line sec = Inr (sec', src') \<Longrightarrow> istream_wf src \<Longrightarrow> istream_wf src'"
proof (induction "length (buf src)" arbitrary: src line sec rule: less_induct)
  case less
  obtain src1 line0 where g: "getline src line = (src1, line0)"
    by (cases "getline src line")
  have wf1: "istream_wf src1"
    using g less.prems(2) by (rule getline_wf)
  from less.prems(1) g show ?case
  proof (cases rule: parse_section_loop_returns)
    case stop
    with wf1 show ?thesis by simp
  next
    case (multi v0 src2 line2 v2 found2)
    have "length (buf src2) < length (buf src)"
      using multiline_loop_buf_le [OF multi(2)] getline_shorter [OF g multi(1)] by simp
    moreover have "istream_wf src2"
      using multi(2) wf1 by (rule multiline_loop_wf)
    ultimately show ?thesis using multi(3) less.hyps by blast
  next
    case (single sec1)
    have "length (buf src1) < length (buf src)"
      using getline_shorter [OF g single(1)] .
    then show ?thesis using single(2) wf1 less.hyps by blast
  qed
qed

text \<open>A read from a failed stream changes nothing, and the loop of \<^verbatim>\<open>parse\<close> stops there.\<close>

lemma getline_failed: "failbit src \<Longrightarrow> getline src line = (src, line)"
  by (simp add: getline_def)

lemma parse_loop_failed: "failbit src \<Longrightarrow> parse_loop src line object = Inr (object, src)"
  by (simp add: parse_loop.simps [of src] getline_failed)

lemma parse_loop_step:
  assumes "getline src line = (src1, line0)"
  shows "parse_loop src line object =
     (if failbit src1 then Inr (object, src1)
      else if parse_condition (trim line0)
      then
        if find_chr (trim line0) (CHR '']'') (find_chr (trim line0) (CHR ''['') 0) = npos
        then Inl (runtime_error (''YumStudioObject: Expected '' @ [CHR 0x27] @ '']'' @ [CHR 0x27]))
        else
          (case substr (trim line0) (size_t_add (find_chr (trim line0) (CHR ''['') 0) 1)
                  (size_t_sub (find_chr (trim line0) (CHR '']'') (find_chr (trim line0) (CHR ''['') 0))
                     (size_t_add (find_chr (trim line0) (CHR ''['') 0) 1)) of
             Inl e \<Rightarrow> Inl e
           | Inr between \<Rightarrow>
              (case parse_section src1 of
                 Inl e \<Rightarrow> Inl e
               | Inr (sec, src2) \<Rightarrow>
                   parse_loop src2 (trim line0)
                     (YumStudioObject_assign object (trim between) sec)))
      else parse_loop src1 (trim line0) object)"
  using assms by (simp add: parse_loop.simps [of src] Let_def cong: sum.case_cong)

lemma parse_loop_adds_at_most_one:
  "parse_loop src line object = Inr (object', src')
     \<Longrightarrow> object' = object \<or> (\<exists>name sec. object' = object(name \<mapsto> sec))"
proof (induction "length (buf src)" arbitrary: src line rule: less_induct)
  case less
  obtain src1 line0 where g: "getline src line = (src1, line0)"
    by (cases "getline src line")
  note step = parse_loop_step [OF g, of object]
  show ?case
  proof (cases "failbit src1")
    case True
    with less.prems show ?thesis unfolding step by simp
  next
    case ok: False
    show ?thesis
    proof (cases "parse_condition (trim line0)")
      case True
      from less.prems ok True obtain between sec src2 where
        ps: "parse_section src1 = Inr (sec, src2)"
        and rec: "parse_loop src2 (trim line0) (YumStudioObject_assign object (trim between) sec)
                    = Inr (object', src')"
        unfolding step by (auto split: if_splits sum.splits)
      from ps have "failbit src2"
        unfolding parse_section_def by (rule parse_section_loop_failbit)
      with rec show ?thesis
        by (auto simp: parse_loop_failed YumStudioObject_assign_def)
    next
      case False
      with less.prems ok have "parse_loop src1 (trim line0) object = Inr (object', src')"
        unfolding step by simp
      moreover have "length (buf src1) < length (buf src)"
        using getline_shorter [OF g ok] .
      ultimately show ?thesis using less.hyps by blast
    qed
  qed
qed

text \<open>
  \<^verbatim>\<open>trim\<close> removes the spaces at both ends, and trimming twice changes nothing more.
\<close>

lemma length_trim_le: "length (trim s) \<le> length s"
  by (simp add: trim_def Let_def)

lemma takeWhile_short: "x \<in> set xs \<Longrightarrow> \<not> P x \<Longrightarrow> length (takeWhile P xs) < length xs"
  by (induction xs) auto

lemma rev_dropWhile_rev:
  "rev (dropWhile P (rev t)) = take (length t - length (takeWhile P (rev t))) t"
proof -
  have "rev (dropWhile P (rev t)) = rev (drop (length (takeWhile P (rev t))) (rev t))"
    by (simp add: dropWhile_eq_drop)
  then show ?thesis by (simp add: rev_drop)
qed

lemma trim_eq:
  "trim s = rev (dropWhile isspace (rev (dropWhile isspace s)))"
proof (cases "\<forall>c\<in>set s. isspace c")
  case True
  then have tw: "takeWhile isspace s = s" and dw: "dropWhile isspace s = []"
    by simp_all
  have l: "length (takeWhile isspace s) = length s"
    by (subst tw) (rule refl)
  show ?thesis by (simp add: trim_def Let_def l dw)
next
  case False
  define t where "t = dropWhile isspace s"
  define k where "k = length (takeWhile isspace (rev t))"
  have s: "s = takeWhile isspace s @ t"
    by (simp add: t_def)
  have len: "length s = length (takeWhile isspace s) + length t"
    by (subst s) simp
  from False have "t \<noteq> []"
    unfolding t_def by simp
  then have "\<not> isspace (hd t)"
    unfolding t_def by (rule hd_dropWhile)
  with \<open>t \<noteq> []\<close> obtain c where c: "c \<in> set (rev t)" "\<not> isspace c"
    by (auto intro: that [of "hd t"])
  then have tne: "\<exists>c\<in>set (rev t). \<not> isspace c" by blast
  have "rev s = rev t @ rev (takeWhile isspace s)"
    by (subst s) simp
  then have tw: "takeWhile isspace (rev s) = takeWhile isspace (rev t)"
    using takeWhile_append1 [of c "rev t" isspace "rev (takeWhile isspace s)"] c
    by (simp del: set_rev)
  have klt: "k < length t"
    unfolding k_def using takeWhile_short [of c "rev t" isspace] c by (simp del: set_rev)
  have "trim s = take (length t - k) t"
    using klt len by (simp add: trim_def Let_def tw k_def [symmetric] t_def [symmetric] dropWhile_eq_drop [symmetric])
  then show ?thesis by (simp add: rev_dropWhile_rev t_def k_def)
qed

lemma trim_idem: "trim (trim s) = trim s"
proof -
  define t where "t = dropWhile isspace s"
  define r where "r = rev (dropWhile isspace (rev t))"
  have t: "trim s = r" by (simp add: trim_eq r_def t_def)
  have front: "dropWhile isspace r = r"
  proof (cases "r = []")
    case True then show ?thesis by simp
  next
    case False
    have r: "r = take (length t - length (takeWhile isspace (rev t))) t"
      unfolding r_def by (rule rev_dropWhile_rev)
    with False have "t \<noteq> []" and pos: "0 < length t - length (takeWhile isspace (rev t))"
      by auto
    then have "\<not> isspace (hd t)"
      unfolding t_def by (simp add: hd_dropWhile)
    moreover have "hd r = hd t"
      by (subst r) (use pos in simp)
    ultimately show ?thesis using False by (cases r) auto
  qed
  have "dropWhile isspace (rev r) = rev r"
    unfolding r_def by simp
  with front show ?thesis
    unfolding t by (simp add: trim_eq)
qed

text \<open>Reading a line that ends with a line feed, and a last line that does not.\<close>

lemma takeWhile_upto: "c \<notin> set l \<Longrightarrow> takeWhile (\<lambda>x. x \<noteq> c) (l @ c # rest) = l"
  by (induction l) auto

lemma dropWhile_upto: "c \<notin> set l \<Longrightarrow> dropWhile (\<lambda>x. x \<noteq> c) (l @ c # rest) = c # rest"
  by (induction l) auto

lemma getline_line:
  assumes "\<not> eofbit src" "\<not> failbit src" "buf src = l @ CHR 0x0A # rest" "CHR 0x0A \<notin> set l"
  shows "getline src line = (src\<lparr>buf := rest\<rparr>, l)"
proof -
  from assms(4) have "takeWhile (\<lambda>c. c \<noteq> CHR 0x0A) (l @ CHR 0x0A # rest) = l"
    "dropWhile (\<lambda>c. c \<noteq> CHR 0x0A) (l @ CHR 0x0A # rest) = CHR 0x0A # rest"
    by (simp_all add: takeWhile_upto dropWhile_upto)
  with assms(1-3) show ?thesis
    by (simp add: getline_def)
qed

lemma getline_last:
  assumes "\<not> eofbit src" "\<not> failbit src" "buf src \<noteq> []" "CHR 0x0A \<notin> set (buf src)"
  shows "getline src line = (src\<lparr>buf := [], eofbit := True\<rparr>, buf src)"
  using assms by (simp add: getline_def)

lemma trim_Nil: "trim [] = []"
  by (simp add: trim_def)

text \<open>
  The loop of \<^verbatim>\<open>parse\<close> passes over lines that fail its test and throws at the first
  line that passes it and has no closing bracket.
\<close>

lemma parse_loop_unclosed:
  assumes pre: "\<forall>p\<in>set pre. CHR 0x0A \<notin> set p \<and> \<not> parse_condition (trim p)"
    and l: "CHR 0x0A \<notin> set l" "parse_condition (trim l)" "CHR '']'' \<notin> set (trim l)"
    and rest: "rest = [] \<or> hd rest = CHR 0x0A"
  shows "parse_loop \<lparr>buf = concat (map (\<lambda>p. p @ [CHR 0x0A]) pre) @ l @ rest,
                     eofbit = False, failbit = False\<rparr> line object
         = Inl (runtime_error (''YumStudioObject: Expected '' @ [CHR 0x27] @ '']'' @ [CHR 0x27]))"
  using pre
proof (induction pre arbitrary: line object)
  case Nil
  from l(2) have "l \<noteq> []"
    by (auto simp: parse_condition_def trim_Nil)
  have "\<exists>src1. getline \<lparr>buf = l @ rest, eofbit = False, failbit = False\<rparr> line = (src1, l)
      \<and> \<not> failbit src1"
  proof (cases rest)
    case Nil
    with \<open>l \<noteq> []\<close> l(1) show ?thesis
      by (simp add: getline_last)
  next
    case (Cons c r)
    with rest have "rest = CHR 0x0A # r" by simp
    with l(1) show ?thesis
      by (simp add: getline_line [where l = l and rest = r])
  qed
  then obtain src1 where g: "getline \<lparr>buf = l @ rest, eofbit = False, failbit = False\<rparr> line = (src1, l)"
    and ok: "\<not> failbit src1" by blast
  have "CHR '']'' \<notin> set (drop (find_chr (trim l) (CHR ''['') 0) (trim l))"
    using l(3) by (auto dest: in_set_dropD)
  then have "find_chr (trim l) (CHR '']'') (find_chr (trim l) (CHR ''['') 0) = npos"
    by (rule find_chr_absent)
  with ok l(2) show ?case
    using parse_loop_step [OF g, of object] by simp
next
  case (Cons p pre)
  from Cons.prems have p: "CHR 0x0A \<notin> set p" "\<not> parse_condition (trim p)"
    and pre': "\<forall>p\<in>set pre. CHR 0x0A \<notin> set p \<and> \<not> parse_condition (trim p)"
    by simp_all
  have g: "getline \<lparr>buf = concat (map (\<lambda>p. p @ [CHR 0x0A]) (p # pre)) @ l @ rest,
                     eofbit = False, failbit = False\<rparr> line
     = (\<lparr>buf = concat (map (\<lambda>p. p @ [CHR 0x0A]) pre) @ l @ rest,
                     eofbit = False, failbit = False\<rparr>, p)"
    using p(1) by (simp add: getline_line [where l = p
          and rest = "concat (map (\<lambda>p. p @ [CHR 0x0A]) pre) @ l @ rest"])
  show ?case
    unfolding parse_loop_step [OF g] using p(2) Cons.IH [OF pre'] by simp
qed

text \<open>The equations that run the parser on a given text.\<close>

lemmas run_simps = parse_def parse_loop.simps parse_section_def parse_section_loop.simps
  multiline_loop.simps getline_def istringstream_def trim_def isspace_def parse_condition_def
  parse_section_condition_def string_index_def find_chr_def find_str_def substr_def
  size_t_add_def size_t_sub_def npos_def YSO_MULLN_STR_def YSOSection_assign_def
  YumStudioObject_assign_def Let_def

section \<open>Properties\<close>

subsection \<open>Lookups of missing keys\<close>

text \<open>
  Claim C6. For every object and every section name that is not in it, the immutable
  section lookup throws \<^verbatim>\<open>std::out_of_range\<close> (the key-not-found failure), and for
  every section and every key that is not in it, the immutable value lookup throws the
  same; \<^verbatim>\<open>contains\<close> answers \<open>False\<close> on both. \<^verbatim>\<open>contains\<close> has no throwing
  branch: it is a total function into \<^typ>\<open>bool\<close>.
\<close>

theorem missing_key_contract:
  "(name \<notin> dom sections \<longrightarrow>
      YumStudioObject_index_const sections name =
        Inl (out_of_range (''YumStudioObject: key not found '' @ [CHR 0x27] @ name @ [CHR 0x27]))
      \<and> YumStudioObject_contains sections name = False)
   \<and> (key \<notin> dom m \<longrightarrow>
      YSOSection_index_const m key =
        Inl (out_of_range (''YumStudioObject: key not found '' @ [CHR 0x27] @ key @ [CHR 0x27]))
      \<and> YSOSection_contains m key = False)"
  by (simp add: YumStudioObject_index_const_def YumStudioObject_contains_def
      YSOSection_index_const_def YSOSection_contains_def dom_def)

theorem missing_key_contract_witness:
  "YumStudioObject_index_const [''general'' \<mapsto> [''name'' \<mapsto> ''demo'']] ''missing'' =
     Inl (out_of_range
       (''YumStudioObject: key not found '' @ [CHR 0x27] @ ''missing'' @ [CHR 0x27]))
   \<and> YumStudioObject_contains [''general'' \<mapsto> [''name'' \<mapsto> ''demo'']] ''missing'' = False
   \<and> YSOSection_index_const [''name'' \<mapsto> ''demo''] ''missing'' =
     Inl (out_of_range
       (''YumStudioObject: key not found '' @ [CHR 0x27] @ ''missing'' @ [CHR 0x27]))
   \<and> YSOSection_contains [''name'' \<mapsto> ''demo''] ''missing'' = False"
  using missing_key_contract [of "''missing''" "[''general'' \<mapsto> [''name'' \<mapsto> ''demo'']]"
      "''missing''" "[''name'' \<mapsto> ''demo'']"]
  by simp

subsection \<open>The test for a key/value line\<close>

text \<open>
  Claim C8, as stated: the test of \<^verbatim>\<open>parse_section\<close> is equivalent to
  \<^verbatim>\<open>(first_char != '#' && first_char != ';') || has_colon\<close>. It is not: on the line
  \<^verbatim>\<open>;abc\<close> (first character \<^verbatim>\<open>;\<close>, no colon) the source's test holds, since the
  first character is not \<^verbatim>\<open>#\<close>, and the specification's expression does not.
\<close>

theorem parse_section_condition_differs:
  "parse_section_condition '';abc'' \<and> \<not> spec_key_value_condition '';abc''"
  by (simp add: parse_section_condition_def spec_key_value_condition_def string_index_def
      find_chr_def npos_def)

text \<open>
  Claim C8, amended. The source's expression groups as
  \<^verbatim>\<open>(size >= 0 && first_char != '#') || (first_char != ';' && has_colon)\<close>, which is
  equivalent to \<^verbatim>\<open>first_char != '#' || has_colon\<close>: only a line that starts with
  \<^verbatim>\<open>#\<close> and has no colon is skipped. So a line starting with \<^verbatim>\<open>;\<close> is never
  skipped, and a line starting with \<^verbatim>\<open>#\<close> is not skipped when it has a colon.
\<close>

theorem parse_section_condition_eq:
  "parse_section_condition line =
     (string_index line 0 \<noteq> CHR ''#'' \<or> find_chr line (CHR '':'') 0 \<noteq> npos)
   \<and> (string_index line 0 = CHR '';'' \<longrightarrow> parse_section_condition line)
   \<and> (string_index line 0 = CHR ''#'' \<longrightarrow>
        parse_section_condition line = (find_chr line (CHR '':'') 0 \<noteq> npos))"
  by (auto simp: parse_section_condition_def)

theorem parse_section_condition_eq_witness:
  "parse_section_condition '';abc'' \<and> parse_section_condition ''#a:b''
   \<and> \<not> parse_section_condition ''#ab''
   \<and> parse_section (istringstream ('';abc'' @ [CHR 0x0A]))
     = Inr (['';abc'' \<mapsto> '';abc''], \<lparr>buf = [], eofbit = True, failbit = True\<rparr>)
   \<and> parse_section (istringstream (''#a:b'' @ [CHR 0x0A]))
     = Inr ([''#a'' \<mapsto> ''b''], \<lparr>buf = [], eofbit = True, failbit = True\<rparr>)
   \<and> parse_section (istringstream (''#ab'' @ [CHR 0x0A]))
     = Inr (Map.empty, \<lparr>buf = [], eofbit = True, failbit = True\<rparr>)"
proof -
  have c: "parse_section_condition '';abc''" "parse_section_condition ''#a:b''"
    "\<not> parse_section_condition ''#ab''"
    using parse_section_condition_eq [of "'';abc''"] parse_section_condition_eq [of "''#a:b''"]
      parse_section_condition_eq [of "''#ab''"]
    by (simp_all add: string_index_def find_chr_def npos_def)
  have "parse_section (istringstream ('';abc'' @ [CHR 0x0A]))
     = Inr (['';abc'' \<mapsto> '';abc''], \<lparr>buf = [], eofbit = True, failbit = True\<rparr>)"
    "parse_section (istringstream (''#a:b'' @ [CHR 0x0A]))
     = Inr ([''#a'' \<mapsto> ''b''], \<lparr>buf = [], eofbit = True, failbit = True\<rparr>)"
    "parse_section (istringstream (''#ab'' @ [CHR 0x0A]))
     = Inr (Map.empty, \<lparr>buf = [], eofbit = True, failbit = True\<rparr>)"
    by (simp_all add: run_simps)
  with c show ?thesis by simp
qed

subsection \<open>One section at most\<close>

text \<open>
  Claim C9. For every input stream, \<^verbatim>\<open>parse\<close> returns an object with at most one
  section. Once \<^verbatim>\<open>parse_section\<close> has been called it returns only after a read has
  failed (for a stream over a character sequence: at the end of the characters, with
  nothing left to read), so the next \<^verbatim>\<open>getline\<close> of the top-level loop fails at once,
  leaving the stream as it is, and the loop returns the object it has, whatever the line
  and the object are: no further header is recognized.
\<close>

theorem parse_at_most_one_section:
  "(parse src = Inr object \<longrightarrow> object = Map.empty \<or> (\<exists>name sec. object = [name \<mapsto> sec]))
   \<and> (parse_section src = Inr (sec, src') \<longrightarrow>
        failbit src' \<and> (istream_wf src \<longrightarrow> eofbit src' \<and> buf src' = [])
        \<and> fst (getline src' line) = src'
        \<and> parse_loop src' line object' = Inr (object', src'))"
proof -
  have one: "object = Map.empty \<or> (\<exists>name sec. object = [name \<mapsto> sec])"
    if "parse src = Inr object"
  proof -
    from that obtain s' where "parse_loop src [] Map.empty = Inr (object, s')"
      by (auto simp: parse_def split: sum.splits)
    from parse_loop_adds_at_most_one [OF this] show ?thesis .
  qed
  have rest: "failbit src' \<and> (istream_wf src \<longrightarrow> eofbit src' \<and> buf src' = [])
        \<and> fst (getline src' line) = src'
        \<and> parse_loop src' line object' = Inr (object', src')"
    if ps: "parse_section src = Inr (sec, src')"
  proof -
    from ps have f: "failbit src'"
      unfolding parse_section_def by (rule parse_section_loop_failbit)
    have "eofbit src' \<and> buf src' = []" if "istream_wf src"
    proof -
      from ps that have "istream_wf src'"
        unfolding parse_section_def by (rule parse_section_loop_wf)
      with f show ?thesis by (simp add: istream_wf_def)
    qed
    with f show ?thesis
      by (simp add: getline_failed parse_loop_failed)
  qed
  from one rest show ?thesis by blast
qed

theorem parse_at_most_one_section_witness:
  "parse (istringstream (''[A]'' @ [CHR 0x0A] @ ''x:1'' @ [CHR 0x0A] @ ''[B]'' @ [CHR 0x0A]))
     = Inr [''A'' \<mapsto> [''x'' \<mapsto> ''1'', ''[B]'' \<mapsto> ''[B]'']]
   \<and> ([''A'' \<mapsto> [''x'' \<mapsto> ''1'', ''[B]'' \<mapsto> ''[B]'']] = Map.empty
        \<or> (\<exists>name sec. [''A'' \<mapsto> [''x'' \<mapsto> ''1'', ''[B]'' \<mapsto> ''[B]'']] = [name \<mapsto> sec]))
   \<and> istream_wf (istringstream (''x:1'' @ [CHR 0x0A] @ ''[B]'' @ [CHR 0x0A]))
   \<and> parse_section (istringstream (''x:1'' @ [CHR 0x0A] @ ''[B]'' @ [CHR 0x0A]))
     = Inr ([''x'' \<mapsto> ''1'', ''[B]'' \<mapsto> ''[B]''], \<lparr>buf = [], eofbit = True, failbit = True\<rparr>)
   \<and> fst (getline \<lparr>buf = [], eofbit = True, failbit = True\<rparr> ''[B]'')
     = \<lparr>buf = [], eofbit = True, failbit = True\<rparr>
   \<and> parse_loop \<lparr>buf = [], eofbit = True, failbit = True\<rparr> ''[B]'' [''A'' \<mapsto> Map.empty]
     = Inr ([''A'' \<mapsto> Map.empty], \<lparr>buf = [], eofbit = True, failbit = True\<rparr>)"
proof -
  have p: "parse (istringstream (''[A]'' @ [CHR 0x0A] @ ''x:1'' @ [CHR 0x0A] @ ''[B]'' @ [CHR 0x0A]))
     = Inr [''A'' \<mapsto> [''x'' \<mapsto> ''1'', ''[B]'' \<mapsto> ''[B]'']]"
    by (simp add: run_simps)
  have s: "parse_section (istringstream (''x:1'' @ [CHR 0x0A] @ ''[B]'' @ [CHR 0x0A]))
     = Inr ([''x'' \<mapsto> ''1'', ''[B]'' \<mapsto> ''[B]''], \<lparr>buf = [], eofbit = True, failbit = True\<rparr>)"
    by (simp add: run_simps)
  have w: "istream_wf (istringstream (''x:1'' @ [CHR 0x0A] @ ''[B]'' @ [CHR 0x0A]))"
    by (simp add: istream_wf_def istringstream_def)
  from p s w parse_at_most_one_section
    [of "istringstream (''[A]'' @ [CHR 0x0A] @ ''x:1'' @ [CHR 0x0A] @ ''[B]'' @ [CHR 0x0A])"
        "[''A'' \<mapsto> [''x'' \<mapsto> ''1'', ''[B]'' \<mapsto> ''[B]'']]"]
    parse_at_most_one_section
    [of "istringstream (''x:1'' @ [CHR 0x0A] @ ''[B]'' @ [CHR 0x0A])" _
        "[''x'' \<mapsto> ''1'', ''[B]'' \<mapsto> ''[B]'']" "\<lparr>buf = [], eofbit = True, failbit = True\<rparr>"
        "''[B]''" "[''A'' \<mapsto> Map.empty]"]
  show ?thesis by simp
qed

subsection \<open>Lines without a colon\<close>

text \<open>
  Claim C10, as stated: within a section body every trimmed line whose first character
  is not \<^verbatim>\<open>#\<close> and which has no colon is stored as an entry whose key and value are
  the whole trimmed line. It fails in two ways. A line that holds the multi-line marker,
  such as the line of three double quotes, does not start with \<^verbatim>\<open>#\<close>, has no colon
  and is its own trimmed form, but its value (the whole line) contains the marker, so the
  sub-parser takes the multi-line branch and stores nothing. And a line inside a
  multi-line value, such as \<^verbatim>\<open>hello\<close> after the line \<^verbatim>\<open>k:"""\<close>, is read by the inner
  loop that collects the value, not by the loop that stores entries: it does not start
  with \<^verbatim>\<open>#\<close>, has no colon and no marker, and is not stored. The inner loop reads
  one line more after the closing marker, before it tests whether the marker was found:
  with the lines \<^verbatim>\<open>foo\<close> and \<^verbatim>\<open>bar\<close> after the closing marker, \<^verbatim>\<open>foo\<close> is lost
  in the same way and only \<^verbatim>\<open>bar\<close> is stored.
\<close>

theorem colon_free_lines_not_stored:
  "string_index YSO_MULLN_STR 0 \<noteq> CHR ''#'' \<and> CHR '':'' \<notin> set YSO_MULLN_STR
   \<and> trim YSO_MULLN_STR = YSO_MULLN_STR
   \<and> parse_section (istringstream (YSO_MULLN_STR @ [CHR 0x0A]))
       = Inr (Map.empty, \<lparr>buf = [], eofbit = True, failbit = True\<rparr>)
   \<and> string_index ''hello'' 0 \<noteq> CHR ''#'' \<and> CHR '':'' \<notin> set ''hello''
   \<and> \<not> sublist YSO_MULLN_STR ''hello'' \<and> trim ''hello'' = ''hello''
   \<and> parse_section (istringstream (''k:'' @ YSO_MULLN_STR @ [CHR 0x0A] @ ''hello'' @ [CHR 0x0A]
         @ YSO_MULLN_STR @ [CHR 0x0A]))
       = Inr (Map.empty, \<lparr>buf = [], eofbit = True, failbit = True\<rparr>)
   \<and> string_index ''foo'' 0 \<noteq> CHR ''#'' \<and> CHR '':'' \<notin> set ''foo''
   \<and> \<not> sublist YSO_MULLN_STR ''foo'' \<and> trim ''foo'' = ''foo''
   \<and> parse_section (istringstream (''k:'' @ YSO_MULLN_STR @ [CHR 0x0A] @ ''hello'' @ [CHR 0x0A]
         @ YSO_MULLN_STR @ [CHR 0x0A] @ ''foo'' @ [CHR 0x0A] @ ''bar'' @ [CHR 0x0A]))
       = Inr ([''bar'' \<mapsto> ''bar''], \<lparr>buf = [], eofbit = True, failbit = True\<rparr>)"
  by (simp add: run_simps sublist_Cons_right)

text \<open>
  Claim C10, amended. Within a section body, every line that the loop of
  \<^verbatim>\<open>parse_section\<close> itself reads (its own \<^verbatim>\<open>getline\<close> returns the line; the lines
  that the \<^verbatim>\<open>getline\<close> of the inner loop reads, which are the lines of a multi-line
  value and the one line after its closing marker, are not among them) and whose trimmed
  form has a first character other than \<^verbatim>\<open>#\<close>, has no colon and does
  not contain the multi-line marker is stored as an entry whose key and value are both
  the whole trimmed line (an empty line and a line \<^verbatim>\<open>[name]\<close> among them):
  \<^verbatim>\<open>find(':')\<close> gives \<^verbatim>\<open>npos\<close>, so \<^verbatim>\<open>substr(0, npos)\<close> is the whole line, and
  \<^verbatim>\<open>npos + 1\<close> wraps around to \<open>0\<close>, so \<^verbatim>\<open>substr(npos + 1)\<close> is the whole line
  too. The loop goes on with that entry assigned. (A \<^verbatim>\<open>std::string\<close> is never longer
  than \<^verbatim>\<open>npos\<close>.)

  In the theorem, \<open>src\<close>, \<open>line\<close> and \<open>sec\<close> are the stream, the line variable and the
  section at the start of any turn of the loop of \<^verbatim>\<open>parse_section\<close>, and \<open>raw\<close> is the
  line that the loop's \<^verbatim>\<open>getline\<close> reads in that turn.
\<close>

theorem no_colon_line_is_stored:
  assumes g: "getline src line = (src1, raw)" and ok: "\<not> failbit src1"
    and len: "length raw \<le> npos"
    and hash: "string_index (trim raw) 0 \<noteq> CHR ''#''"
    and colon: "CHR '':'' \<notin> set (trim raw)"
    and marker: "\<not> sublist YSO_MULLN_STR (trim raw)"
  shows "find_chr (trim raw) (CHR '':'') 0 = npos
     \<and> substr (trim raw) 0 npos = Inr (trim raw)
     \<and> substr (trim raw) (size_t_add npos 1) npos = Inr (trim raw)
     \<and> parse_section_loop src line sec =
         parse_section_loop src1 (trim raw) (sec(trim raw \<mapsto> trim raw))"
proof -
  have n: "find_chr (trim raw) (CHR '':'') 0 = npos"
    using colon by (simp add: find_chr_absent)
  have "length (trim raw) \<le> npos"
    using length_trim_le [of raw] len by simp
  then have whole: "take npos (trim raw) = trim raw"
    by simp
  have c: "parse_section_condition (trim raw)"
    using hash by (simp add: parse_section_condition_def)
  have m: "find_str (trim raw) YSO_MULLN_STR = npos"
    using marker by (simp add: find_str_def find_str_at_absent)
  have "parse_section_loop src line sec =
         parse_section_loop src1 (trim raw) (sec(trim raw \<mapsto> trim raw))"
    unfolding parse_section_loop_step [OF g]
    using ok c m by (simp add: n size_t_add_npos whole trim_idem YSOSection_assign_def)
  then show ?thesis
    by (simp add: n substr_def size_t_add_npos whole)
qed

theorem no_colon_line_is_stored_witness:
  "parse_section (istringstream (''[name]'' @ [CHR 0x0A]))
     = Inr ([''[name]'' \<mapsto> ''[name]''], \<lparr>buf = [], eofbit = True, failbit = True\<rparr>)
   \<and> parse_section (istringstream [CHR 0x0A])
     = Inr (['''' \<mapsto> ''''], \<lparr>buf = [], eofbit = True, failbit = True\<rparr>)"
proof -
  have a: "parse_section_loop (istringstream (''[name]'' @ [CHR 0x0A])) [] Map.empty
      = parse_section_loop \<lparr>buf = [], eofbit = False, failbit = False\<rparr> (trim ''[name]'')
          [trim ''[name]'' \<mapsto> trim ''[name]'']"
    by (rule no_colon_line_is_stored [THEN conjunct2, THEN conjunct2, THEN conjunct2])
       (simp_all add: getline_def istringstream_def trim_def isspace_def string_index_def
          npos_def YSO_MULLN_STR_def sublist_Cons_right)
  have b: "parse_section_loop (istringstream [CHR 0x0A]) [] Map.empty
      = parse_section_loop \<lparr>buf = [], eofbit = False, failbit = False\<rparr> (trim '''')
          [trim '''' \<mapsto> trim '''']"
    by (rule no_colon_line_is_stored [THEN conjunct2, THEN conjunct2, THEN conjunct2])
       (simp_all add: getline_def istringstream_def trim_def isspace_def string_index_def
          npos_def YSO_MULLN_STR_def sublist_Cons_right)
  have t: "trim ''[name]'' = ''[name]''" "trim '''' = ''''"
    by (simp_all add: trim_def isspace_def)
  have e: "parse_section_loop \<lparr>buf = [], eofbit = False, failbit = False\<rparr> l s
      = Inr (s, \<lparr>buf = [], eofbit = True, failbit = True\<rparr>)" for l s
    by (simp add: parse_section_loop.simps getline_def)
  show ?thesis
    unfolding parse_section_def a b t e by simp
qed

subsection \<open>A header without its closing bracket\<close>

text \<open>
  Where the loop of \<^verbatim>\<open>parse\<close> itself reads a line that passes its header test and has
  no \<^verbatim>\<open>]\<close>, it throws: this is so when every line before it is blank, a comment or
  without \<^verbatim>\<open>[\<close>, whether the line ends the input (with or without a line feed) or
  further lines follow.
\<close>

lemma parse_unclosed_at_top_level:
  assumes "\<forall>p\<in>set pre. CHR 0x0A \<notin> set p \<and> \<not> parse_condition (trim p)"
    and "CHR 0x0A \<notin> set l" and "parse_condition (trim l)" and "CHR '']'' \<notin> set (trim l)"
    and "rest = [] \<or> hd rest = CHR 0x0A"
  shows "parse (istringstream (concat (map (\<lambda>p. p @ [CHR 0x0A]) pre) @ l @ rest))
         = Inl (runtime_error (''YumStudioObject: Expected '' @ [CHR 0x27] @ '']'' @ [CHR 0x27]))"
  unfolding parse_def istringstream_def
  by (simp add: parse_loop_unclosed [OF assms])

text \<open>
  Claim C7 says that parsing an input that contains the line \<^verbatim>\<open>[unclosed\<close> fails with
  the malformed-input error. The code throws for the input that is this line alone, but
  not when a section header comes before the line: then \<^verbatim>\<open>parse_section\<close> reads it,
  and stores it as an entry whose key and value are the line. For the lines
  \<^verbatim>\<open>[S]\<close>, \<^verbatim>\<open>k:v\<close>, \<^verbatim>\<open>[unclosed\<close>, with or without a line feed after the last
  one, \<^verbatim>\<open>parse\<close> returns an object.
\<close>

theorem unclosed_header_in_section_is_stored:
  "parse (istringstream (''[S]'' @ [CHR 0x0A] @ ''k:v'' @ [CHR 0x0A] @ ''[unclosed'' @ [CHR 0x0A]))
     = Inr [''S'' \<mapsto> [''k'' \<mapsto> ''v'', ''[unclosed'' \<mapsto> ''[unclosed'']]
   \<and> parse (istringstream (''[S]'' @ [CHR 0x0A] @ ''k:v'' @ [CHR 0x0A] @ ''[unclosed''))
     = Inr [''S'' \<mapsto> [''k'' \<mapsto> ''v'', ''[unclosed'' \<mapsto> ''[unclosed'']]
   \<and> parse (istringstream ''[unclosed'')
     = Inl (runtime_error (''YumStudioObject: Expected '' @ [CHR 0x27] @ '']'' @ [CHR 0x27]))"
  by (simp add: run_simps)

subsection \<open>Serializing and parsing again\<close>

text \<open>
  Claim C1 says that parsing the text rendered for an object gives the object back. The
  code renders no text for an object that has a section: \<^verbatim>\<open>save\<close> calls
  \<^verbatim>\<open>to_string\<close>, whose body ends without a \<^verbatim>\<open>return\<close> statement, so the call has
  undefined behaviour and \<^verbatim>\<open>save\<close> does not complete. That is so already for the
  object with the one section \<^verbatim>\<open>S\<close> and the one entry \<^verbatim>\<open>k\<close> to \<^verbatim>\<open>v\<close>.

  The parser would not give the object back either. The statements of \<^verbatim>\<open>save\<close> put
  the header line, the line \<^verbatim>\<open>[S]\<close>, the \<open>s\<close> that the loop of \<^verbatim>\<open>to_string\<close> builds
  (the line \<^verbatim>\<open>k:v\<close>) and an empty line together; \<^verbatim>\<open>parse\<close> on that text stores the
  empty line as an entry with the empty key and the empty value, which the object never
  had.
\<close>

theorem save_renders_nothing_to_parse:
  "object_of [(''S'', [(''k'', ''v'')])] = [''S'' \<mapsto> [''k'' \<mapsto> ''v'']]
   \<and> to_string [(''k'', ''v'')] = Inl undefined_behaviour
   \<and> save True [(''S'', [(''k'', ''v'')])] ''demo.yso'' [] = Inl undefined_behaviour
   \<and> to_string_s [(''k'', ''v'')] = ''k:v'' @ [CHR 0x0A]
   \<and> parse (istringstream ([CHR 0x0A] @ ''[S]'' @ [CHR 0x0A] @ ''k:v'' @ [CHR 0x0A] @ [CHR 0x0A]))
     = Inr [''S'' \<mapsto> [''k'' \<mapsto> ''v'', [] \<mapsto> []]]
   \<and> [''k'' \<mapsto> ''v'', [] \<mapsto> []] [] = Some []
   \<and> [''k'' \<mapsto> ''v''] [] = None"
  by (simp add: save_def to_string_def to_string_s_def object_of_def run_simps)

text \<open>
  Claim C4 says that serialization wraps a value that contains a line feed in the
  multi-line marker. \<^verbatim>\<open>pack\<close> does that, but no function calls \<^verbatim>\<open>pack\<close>: the
  loop of \<^verbatim>\<open>to_string\<close> appends the value as it is, so the \<open>s\<close> it builds has no
  marker. And \<^verbatim>\<open>to_string\<close> ends without a \<^verbatim>\<open>return\<close> statement, so neither it nor
  \<^verbatim>\<open>save\<close> emits anything defined for a section at all.
\<close>

theorem to_string_does_not_pack:
  "pack (''a'' @ [CHR 0x0A] @ ''b'') = YSO_MULLN_STR @ ''a'' @ [CHR 0x0A] @ ''b'' @ YSO_MULLN_STR
   \<and> to_string_s [(''k'', ''a'' @ [CHR 0x0A] @ ''b'')] = ''k:a'' @ [CHR 0x0A] @ ''b'' @ [CHR 0x0A]
   \<and> to_string [(''k'', ''a'' @ [CHR 0x0A] @ ''b'')] = Inl undefined_behaviour
   \<and> save True [(''S'', [(''k'', ''a'' @ [CHR 0x0A] @ ''b'')])] ''demo.yso'' []
     = Inl undefined_behaviour"
  by (simp add: pack_def to_string_def to_string_s_def save_def find_chr_def npos_def)

subsection \<open>Two section headers\<close>

text \<open>
  Claim C2 says that the section-body sub-parser stops at the next section header, so
  that an input with two header lines gives two sections. The code reads on to the end:
  the second header line becomes an entry of the first section, and so do the lines
  after it.
\<close>

theorem second_header_is_an_entry:
  "parse (istringstream (''[A]'' @ [CHR 0x0A] @ ''x:1'' @ [CHR 0x0A]
       @ ''[B]'' @ [CHR 0x0A] @ ''y:2'' @ [CHR 0x0A]))
     = Inr [''A'' \<mapsto> [''x'' \<mapsto> ''1'', ''[B]'' \<mapsto> ''[B]'', ''y'' \<mapsto> ''2'']]"
  by (simp add: run_simps)

subsection \<open>Multi-line values\<close>

text \<open>
  Claim C3 says that the six lines \<^verbatim>\<open>[general]\<close>, \<^verbatim>\<open>name:demo\<close>,
  \<^verbatim>\<open>desc:"""\<close>, \<^verbatim>\<open>hello\<close>, \<^verbatim>\<open>world\<close>, \<^verbatim>\<open>"""\<close> parse to the section
  \<^verbatim>\<open>general\<close> with the entries \<^verbatim>\<open>name\<close> and \<^verbatim>\<open>desc\<close>. The code collects the
  multi-line value and never assigns it: with a line feed after the last line the section
  has the entry \<^verbatim>\<open>name\<close> only, and without one \<^verbatim>\<open>parse\<close> throws, because the
  end-of-file test comes before the search for the closing marker. The value that the
  inner loop has collected when it ends is the opening marker followed by
  \<^verbatim>\<open>helloworld\<close>, with nothing between the two lines.
\<close>

theorem multiline_value_is_dropped:
  "parse (istringstream (''[general]'' @ [CHR 0x0A] @ ''name:demo'' @ [CHR 0x0A]
       @ ''desc:'' @ YSO_MULLN_STR @ [CHR 0x0A] @ ''hello'' @ [CHR 0x0A] @ ''world'' @ [CHR 0x0A]
       @ YSO_MULLN_STR @ [CHR 0x0A]))
     = Inr [''general'' \<mapsto> [''name'' \<mapsto> ''demo'']]
   \<and> parse (istringstream (''[general]'' @ [CHR 0x0A] @ ''name:demo'' @ [CHR 0x0A]
       @ ''desc:'' @ YSO_MULLN_STR @ [CHR 0x0A] @ ''hello'' @ [CHR 0x0A] @ ''world'' @ [CHR 0x0A]
       @ YSO_MULLN_STR))
     = Inl (runtime_error (''expected '' @ [CHR 0x27] @ YSO_MULLN_STR @ [CHR 0x27]))
   \<and> multiline_loop
       (istringstream (''hello'' @ [CHR 0x0A] @ ''world'' @ [CHR 0x0A] @ YSO_MULLN_STR @ [CHR 0x0A]))
       (''desc:'' @ YSO_MULLN_STR) YSO_MULLN_STR False
     = Inr (\<lparr>buf = [], eofbit = True, failbit = True\<rparr>, [], YSO_MULLN_STR @ ''helloworld'', True)"
  by (simp add: run_simps)

text \<open>
  Claim C5 says that \<^verbatim>\<open>parse\<close> fails whenever the input ends before the marker that
  closes a multi-line value. The code throws only when the last line it reads has no line
  feed after it: for the lines \<^verbatim>\<open>[S]\<close>, \<^verbatim>\<open>k:"""\<close>, \<^verbatim>\<open>abc\<close> with a line feed
  after each, and for the lines \<^verbatim>\<open>[S]\<close>, \<^verbatim>\<open>k:"""\<close> alone, it returns an object.
\<close>

theorem unterminated_value_is_accepted:
  "parse (istringstream (''[S]'' @ [CHR 0x0A] @ ''k:'' @ YSO_MULLN_STR @ [CHR 0x0A]
       @ ''abc'' @ [CHR 0x0A]))
     = Inr [''S'' \<mapsto> Map.empty]
   \<and> parse (istringstream (''[S]'' @ [CHR 0x0A] @ ''k:'' @ YSO_MULLN_STR))
     = Inr [''S'' \<mapsto> Map.empty]
   \<and> parse (istringstream (''[S]'' @ [CHR 0x0A] @ ''k:'' @ YSO_MULLN_STR @ [CHR 0x0A] @ ''abc''))
     = Inl (runtime_error (''expected '' @ [CHR 0x27] @ YSO_MULLN_STR @ [CHR 0x27]))"
  by (simp add: run_simps)

end
